theory Spec2Isabelle
  imports Main
begin

section \<open>Memory: character arrays and C strings\<close>

text \<open>
  A character array is the list of its bytes; its length is its capacity. A C string
  inside an array is the bytes before the first NUL. An access beyond the capacity is
  undefined behaviour in C; the model makes it a value of type \<open>fault\<close>, so that every
  function that touches memory returns \<open>fault + result\<close>.
\<close>

type_synonym buffer = "char list"

datatype fault =
    ReadOutOfBounds nat
  | WriteOutOfBounds nat
  | NullPointer
  | InvalidStream

abbreviation NUL :: char where
  "NUL \<equiv> CHR 0x00"

abbreviation newline :: char where
  "newline \<equiv> CHR 0x0A"

text \<open>Reading the C string an array holds: the scan for the terminator leaves the array
  when there is none.\<close>

definition c_str :: "buffer \<Rightarrow> fault + string" where
  "c_str s = (if NUL \<in> set s then Inr (takeWhile (\<lambda>c. c \<noteq> NUL) s)
              else Inl (ReadOutOfBounds (length s)))"

text \<open>One store \<open>buf[i] = c\<close>.\<close>

definition poke :: "buffer \<Rightarrow> nat \<Rightarrow> char \<Rightarrow> fault + buffer" where
  "poke buf i c = (if i < length buf then Inr (buf[i := c]) else Inl (WriteOutOfBounds i))"

text \<open>Consecutive stores from offset \<open>i\<close> on, as the copying routines of libc do them:
  nothing compares the offset with a capacity.\<close>

fun write_bytes :: "buffer \<Rightarrow> nat \<Rightarrow> string \<Rightarrow> fault + buffer" where
  "write_bytes buf i [] = Inr buf"
| "write_bytes buf i (c # cs) =
     (case poke buf i c of
        Inl e \<Rightarrow> Inl e
      | Inr buf' \<Rightarrow> write_bytes buf' (Suc i) cs)"

text \<open>An array with automatic storage holds indeterminate bytes: \<open>junk\<close> gives them.\<close>

definition local_array :: "(nat \<Rightarrow> char) \<Rightarrow> nat \<Rightarrow> nat \<Rightarrow> buffer" where
  "local_array junk off n = map junk [off..<off + n]"

section \<open>The libc string functions the program calls\<close>

text \<open>
  The functions of the C library are not part of the program's source; each one is
  modelled after its description in the C standard, on the memory model above.
\<close>

text \<open>\<open>strcpy(dst, src)\<close> copies the string of \<open>src\<close> with its terminator to the start of
  \<open>dst\<close> and returns \<open>dst\<close>.\<close>

definition strcpy :: "buffer \<Rightarrow> buffer \<Rightarrow> fault + buffer" where
  "strcpy dst src =
     (case c_str src of
        Inl e \<Rightarrow> Inl e
      | Inr s \<Rightarrow> write_bytes dst 0 (s @ [NUL]))"

text \<open>The offset of the last occurrence of \<open>c\<close>.\<close>

fun last_index :: "string \<Rightarrow> char \<Rightarrow> nat option" where
  "last_index [] c = None"
| "last_index (x # xs) c =
     (case last_index xs c of
        Some i \<Rightarrow> Some (Suc i)
      | None \<Rightarrow> if x = c then Some 0 else None)"

text \<open>\<open>strrchr(s, c)\<close>: the last occurrence of \<open>c\<close> in the string of \<open>s\<close>, whose
  terminator counts as part of the string; \<open>None\<close> is the null pointer.\<close>

definition strrchr :: "buffer \<Rightarrow> char \<Rightarrow> fault + nat option" where
  "strrchr s c =
     (case c_str s of
        Inl e \<Rightarrow> Inl e
      | Inr str \<Rightarrow> Inr (last_index (str @ [NUL]) c))"

section \<open>The runtime-directory resolver\<close>

text \<open>
  \<^verbatim>\<open>
  void parent_dir(char* path){
      char* last_slash = strrchr(path, '/');
      if(last_slash){ *last_slash = '\0'; }
  }
  void get_runtime_dir(int argc, char** argv,char* buffer, int buffer_size){
      parent_dir(strcpy(buffer, argv[0]));
  }
  \<close>
  Both work in place: the model returns the array after the call.
  \<open>argv\<close> is the list of its non-null entries, so \<open>argv[0]\<close> of an empty list is the
  null pointer that ends the vector.
\<close>

definition parent_dir :: "buffer \<Rightarrow> fault + buffer" where
  "parent_dir path =
     (case strrchr path (CHR ''/'') of
        Inl e \<Rightarrow> Inl e
      | Inr None \<Rightarrow> Inr path
      | Inr (Some last_slash) \<Rightarrow> poke path last_slash NUL)"

definition get_runtime_dir :: "int \<Rightarrow> buffer list \<Rightarrow> buffer \<Rightarrow> int \<Rightarrow> fault + buffer" where
  "get_runtime_dir argc argv buffer buffer_size =
     (case argv of
        [] \<Rightarrow> Inl NullPointer
      | argv0 # _ \<Rightarrow>
          (case strcpy buffer argv0 of
             Inl e \<Rightarrow> Inl e
           | Inr buffer' \<Rightarrow> parent_dir buffer'))"

section \<open>The world: file system, output streams, open files\<close>

text \<open>
  The file system maps the name of every file that can be opened for reading to its
  bytes. Each output stream is the list of the texts written to it, one per call, in
  order. \<open>streams\<close> holds the open input streams: a handle with the bytes not yet read.
  Text mode is that of POSIX, where the bytes of the file are read as they are. A
  write to an output stream and a read from an open stream do not fail.
\<close>

record world =
  fs :: "string \<rightharpoonup> string"
  stdout :: "string list"
  stderr :: "string list"
  streams :: "(nat \<times> string) list"

datatype ostream = Stdout | Stderr

text \<open>The directives the program uses: \<open>%s\<close> prints the C string of the next argument;
  every other character is copied.\<close>

fun format :: "string \<Rightarrow> buffer list \<Rightarrow> fault + string" where
  "format [] args = Inr []"
| "format [c] args = Inr [c]"
| "format (c # d # cs) args =
     (if c = CHR ''%'' \<and> d = CHR ''s'' then
        (case args of
           [] \<Rightarrow> Inl NullPointer
         | a # as \<Rightarrow>
             (case c_str a of
                Inl e \<Rightarrow> Inl e
              | Inr s \<Rightarrow> (case format cs as of Inl e \<Rightarrow> Inl e | Inr r \<Rightarrow> Inr (s @ r))))
      else (case format (d # cs) args of Inl e \<Rightarrow> Inl e | Inr r \<Rightarrow> Inr (c # r)))"

definition fprintf :: "ostream \<Rightarrow> string \<Rightarrow> buffer list \<Rightarrow> world \<Rightarrow> fault + world" where
  "fprintf stream fmt args w =
     (case format fmt args of
        Inl e \<Rightarrow> Inl e
      | Inr text \<Rightarrow>
          Inr (case stream of
                 Stdout \<Rightarrow> w\<lparr>stdout := stdout w @ [text]\<rparr>
               | Stderr \<Rightarrow> w\<lparr>stderr := stderr w @ [text]\<rparr>))"

definition printf :: "string \<Rightarrow> buffer list \<Rightarrow> world \<Rightarrow> fault + world" where
  "printf fmt args w = fprintf Stdout fmt args w"

text \<open>\<open>snprintf(s, n, fmt, ...)\<close> stores at most \<open>n - 1\<close> characters of the text and a
  terminator.\<close>

definition snprintf :: "buffer \<Rightarrow> nat \<Rightarrow> string \<Rightarrow> buffer list \<Rightarrow> fault + buffer" where
  "snprintf s n fmt args =
     (case format fmt args of
        Inl e \<Rightarrow> Inl e
      | Inr text \<Rightarrow> if n = 0 then Inr s else write_bytes s 0 (take (n - 1) text @ [NUL]))"

text \<open>\<open>fopen(path, "r")\<close>: the null pointer when the file cannot be opened, else a new
  stream positioned at the start of the file.\<close>

definition fresh_handle :: "(nat \<times> string) list \<Rightarrow> nat" where
  "fresh_handle ss = Suc (fold max (map fst ss) 0)"

definition fopen :: "buffer \<Rightarrow> world \<Rightarrow> fault + (nat option \<times> world)" where
  "fopen path w =
     (case c_str path of
        Inl e \<Rightarrow> Inl e
      | Inr name \<Rightarrow>
          (case fs w name of
             None \<Rightarrow> Inr (None, w)
           | Some content \<Rightarrow>
               (let file = fresh_handle (streams w)
                in Inr (Some file, w\<lparr>streams := (file, content) # streams w\<rparr>))))"

definition fclose :: "nat \<Rightarrow> world \<Rightarrow> fault + world" where
  "fclose file w =
     (case map_of (streams w) file of
        None \<Rightarrow> Inl InvalidStream
      | Some _ \<Rightarrow> Inr (w\<lparr>streams := filter (\<lambda>(h, _). h \<noteq> file) (streams w)\<rparr>))"

text \<open>\<open>fgets(s, n, file)\<close> reads at most \<open>n - 1\<close> characters, stopping after a newline or at
  the end of the file, stores them with a terminator and returns \<open>s\<close>; at the end of the
  file with nothing read it returns the null pointer and leaves \<open>s\<close> as it was.\<close>

fun fgets_scan :: "nat \<Rightarrow> string \<Rightarrow> string \<times> string" where
  "fgets_scan 0 cs = ([], cs)"
| "fgets_scan (Suc n) [] = ([], [])"
| "fgets_scan (Suc n) (c # cs) =
     (if c = newline then ([c], cs)
      else (case fgets_scan n cs of (chunk, rest) \<Rightarrow> (c # chunk, rest)))"

definition set_unread :: "nat \<Rightarrow> string \<Rightarrow> (nat \<times> string) list \<Rightarrow> (nat \<times> string) list" where
  "set_unread file rest ss = map (\<lambda>(h, u). if h = file then (h, rest) else (h, u)) ss"

definition unread :: "world \<Rightarrow> nat \<Rightarrow> string" where
  "unread w file = (case map_of (streams w) file of None \<Rightarrow> [] | Some u \<Rightarrow> u)"

definition fgets :: "buffer \<Rightarrow> nat \<Rightarrow> nat \<Rightarrow> world \<Rightarrow> fault + (buffer option \<times> world)" where
  "fgets s n file w =
     (case map_of (streams w) file of
        None \<Rightarrow> Inl InvalidStream
      | Some u \<Rightarrow>
          if n = 0 then Inr (None, w)
          else if 1 < n \<and> u = [] then Inr (None, w)
          else (case fgets_scan (n - 1) u of
                  (chunk, rest) \<Rightarrow>
                    (case write_bytes s 0 (chunk @ [NUL]) of
                       Inl e \<Rightarrow> Inl e
                     | Inr s' \<Rightarrow> Inr (Some s', w\<lparr>streams := set_unread file rest (streams w)\<rparr>))))"

section \<open>The file printer\<close>

text \<open>
  \<^verbatim>\<open>
  void print_file_content(const char* path){
      FILE* file = fopen(path, "r");
      if(file){
          char line[256];
          while(fgets(line, sizeof(line), file)){ printf("%s", line); }
          fclose(file);
      } else {
          fprintf(stderr, "Failed to open file: %s\n", path);
      }
  }
  \<close>
  The loop reads from the stream until \<open>fgets\<close> returns the null pointer.
\<close>

function read_loop :: "buffer \<Rightarrow> nat \<Rightarrow> world \<Rightarrow> fault + world" where
  "read_loop line file w =
     (case fgets line 256 file w of
        Inl e \<Rightarrow> Inl e
      | Inr (None, w') \<Rightarrow> Inr w'
      | Inr (Some line', w') \<Rightarrow>
          (case printf ''%s'' [line'] w' of
             Inl e \<Rightarrow> Inl e
           | Inr w'' \<Rightarrow> read_loop line' file w''))"
  by pat_completeness auto
termination
proof (relation "measure (\<lambda>(line, file, w). length (unread w file))")
  show "wf (measure (\<lambda>(line, file, w). length (unread w file)))"
    by simp
next
  fix line :: buffer and fp :: nat and w :: world and b x y line' w''
  assume got: "fgets line 256 fp w = Inr b" and b: "(x, y) = b" and x: "x = Some line'"
    and printed: "printf ''%s'' [line'] y = Inr w''"
  have scan: "fgets_scan (Suc n) u = (chunk, rest) \<Longrightarrow> u \<noteq> [] \<Longrightarrow> length rest < length u"
    for n u chunk rest
  proof (induction n arbitrary: u chunk rest)
    case 0
    then show ?case by (cases u) (auto split: if_splits)
  next
    case (Suc n)
    then obtain c cs where u: "u = c # cs" by (cases u) auto
    show ?case
    proof (cases "c = newline \<or> cs = []")
      case True
      with Suc.prems u show ?thesis by (auto split: if_splits prod.splits)
    next
      case False
      obtain ch rs where f: "fgets_scan (Suc n) cs = (ch, rs)"
        by (cases "fgets_scan (Suc n) cs")
      with False have "length rs < length cs" by (intro Suc.IH [OF f]) simp
      with Suc.prems u f False show ?thesis by auto
    qed
  qed
  have upd: "map_of ss f = Some u \<Longrightarrow> map_of (set_unread f r ss) f = Some r"
    for ss :: "(nat \<times> string) list" and f r u
    by (induction ss) (auto simp: set_unread_def split: if_splits)
  from got obtain u where u: "map_of (streams w) fp = Some u"
    by (auto simp: fgets_def split: option.splits)
  from got b x u have ne: "u \<noteq> []"
    by (auto simp: fgets_def split: if_splits)
  obtain chunk rest where sc: "fgets_scan (Suc 254) u = (chunk, rest)"
    by (cases "fgets_scan (Suc 254) u")
  have s255: "(256::nat) - 1 = Suc 254" by simp
  from got b x u ne sc have y: "y = w\<lparr>streams := set_unread fp rest (streams w)\<rparr>"
    by (auto simp: fgets_def s255 split: sum.splits)
  from printed have "streams w'' = streams y"
    by (auto simp: printf_def fprintf_def split: sum.splits)
  then have "unread w'' fp = rest"
    using y upd [OF u, of rest] by (simp add: unread_def)
  moreover have "unread w fp = u" using u by (simp add: unread_def)
  moreover have "length rest < length u" using scan [OF sc ne] .
  ultimately show "((line', fp, w''), line, fp, w) \<in> measure (\<lambda>(line, file, w). length (unread w file))"
    by simp
qed

definition print_file_content :: "(nat \<Rightarrow> char) \<Rightarrow> buffer \<Rightarrow> world \<Rightarrow> fault + world" where
  "print_file_content junk path w =
     (case fopen path w of
        Inl e \<Rightarrow> Inl e
      | Inr (Some file, w1) \<Rightarrow>
          (case read_loop (local_array junk 2048 256) file w1 of
             Inl e \<Rightarrow> Inl e
           | Inr w2 \<Rightarrow> fclose file w2)
      | Inr (None, w1) \<Rightarrow> fprintf Stderr ''Failed to open file: %s\<newline>'' [path] w1)"

section \<open>The program\<close>

text \<open>
  \<^verbatim>\<open>
  int main(int argc, char** argv)
  {
      char path_buffer[1024], example_buffer[1024];
      get_runtime_dir(argc, argv, path_buffer, sizeof(path_buffer));
      printf("Runtime directory: %s\n", path_buffer);
      snprintf(example_buffer, sizeof(example_buffer), "%s/example.txt", path_buffer);
      fprintf(stdout, "Open file at path: %s\n", example_buffer);
      print_file_content(example_buffer);
  }
  \<close>
  Control reaches the closing brace of \<open>main\<close> without a \<open>return\<close>: since C99 the exit
  status is then 0.
  The result is the exit status and the world after the run, or the fault that ended it.
\<close>

definition main :: "(nat \<Rightarrow> char) \<Rightarrow> int \<Rightarrow> buffer list \<Rightarrow> world \<Rightarrow> fault + int \<times> world" where
  "main junk argc argv w =
     (case get_runtime_dir argc argv (local_array junk 0 1024) 1024 of
        Inl e \<Rightarrow> Inl e
      | Inr path_buffer \<Rightarrow>
     (case printf ''Runtime directory: %s\<newline>'' [path_buffer] w of
        Inl e \<Rightarrow> Inl e
      | Inr w1 \<Rightarrow>
     (case snprintf (local_array junk 1024 1024) 1024 ''%s/example.txt'' [path_buffer] of
        Inl e \<Rightarrow> Inl e
      | Inr example_buffer \<Rightarrow>
     (case fprintf Stdout ''Open file at path: %s\<newline>'' [example_buffer] w1 of
        Inl e \<Rightarrow> Inl e
      | Inr w2 \<Rightarrow>
     (case print_file_content junk example_buffer w2 of
        Inl e \<Rightarrow> Inl e
      | Inr w3 \<Rightarrow> Inr (0, w3))))))"

section \<open>What a run computes, on strings\<close>

text \<open>
  The functions of the program work on arrays and on the world. The three functions
  below say on plain strings what they compute; the facts that follow prove that the
  program computes them. \<open>dirname\<close> is \<open>parent_dir\<close> read on the string in the array: cut
  at the last \<open>/\<close>, or nothing when there is none. \<open>example_path\<close> is the string \<open>main\<close>
  leaves in \<open>example_buffer\<close>. \<open>chunks\<close> is the sequence of reads the loop of
  \<open>print_file_content\<close> makes on a file: \<open>fgets\<close> with an array of 256 bytes, again and
  again until the end of the file.
\<close>

definition dirname :: "string \<Rightarrow> string" where
  "dirname p = (case last_index p (CHR ''/'') of None \<Rightarrow> p | Some i \<Rightarrow> take i p)"

definition example_path :: "string \<Rightarrow> string" where
  "example_path dir = take 1023 (dir @ ''/example.txt'')"

function chunks :: "string \<Rightarrow> string list" where
  "chunks u =
     (if u = [] then []
      else (case fgets_scan 255 u of (chunk, rest) \<Rightarrow> chunk # chunks rest))"
  by pat_completeness auto
termination
proof (relation "measure length")
  show "wf (measure (length :: string \<Rightarrow> nat))"
    by simp
next
  fix u :: string and chunk rest
  assume ne: "u \<noteq> []" and cr: "(chunk, rest) = fgets_scan 255 u"
  have scan: "v \<noteq> [] \<Longrightarrow> length (snd (fgets_scan (Suc n) v)) < length v" for n v
  proof (induction n arbitrary: v)
    case 0
    then show ?case by (cases v) auto
  next
    case (Suc n)
    then obtain c cs where v: "v = c # cs" by (cases v) auto
    show ?case
    proof (cases "cs = []")
      case True
      with v show ?thesis by simp
    next
      case False
      then have "length (snd (fgets_scan (Suc n) cs)) < length cs" by (rule Suc.IH)
      with v show ?thesis by (simp add: split_beta)
    qed
  qed
  have "(255::nat) = Suc 254" by simp
  then have "length (snd (fgets_scan 255 u)) < length u"
    using scan [OF ne, of 254] by simp
  with cr show "(rest, u) \<in> measure length"
    by (metis in_measure snd_conv)
qed

text \<open>What \<open>printf("%s", line)\<close> prints of a chunk: the bytes before its first NUL.\<close>

definition printed :: "string \<Rightarrow> string list" where
  "printed content = map (takeWhile (\<lambda>c. c \<noteq> NUL)) (chunks content)"

declare chunks.simps [simp del]
declare read_loop.simps [simp del]

section \<open>Facts about memory\<close>

lemma c_str_terminated:
  "NUL \<notin> set s \<Longrightarrow> c_str (s @ NUL # rest) = Inr s"
  by (auto simp: c_str_def takeWhile_tail takeWhile_eq_all_conv)

lemma c_str_unterminated:
  "NUL \<notin> set s \<Longrightarrow> c_str s = Inl (ReadOutOfBounds (length s))"
  by (simp add: c_str_def)

lemma c_str_split:
  "c_str b = Inr s \<Longrightarrow> \<exists>rest. b = s @ NUL # rest \<and> NUL \<notin> set s"
proof -
  assume a: "c_str b = Inr s"
  then have mem: "NUL \<in> set b" and s: "s = takeWhile (\<lambda>c. c \<noteq> NUL) b"
    by (auto simp: c_str_def split: if_splits)
  from mem have "dropWhile (\<lambda>c. c \<noteq> NUL) b \<noteq> []"
    by (simp add: dropWhile_eq_Nil_conv)
  then obtain x rest where d: "dropWhile (\<lambda>c. c \<noteq> NUL) b = x # rest"
    by (cases "dropWhile (\<lambda>c. c \<noteq> NUL) b") auto
  then have "x = NUL"
    using hd_dropWhile [of "\<lambda>c. c \<noteq> NUL" b] by auto
  with d have "b = s @ NUL # rest"
    using takeWhile_dropWhile_id [of "\<lambda>c. c \<noteq> NUL" b] s by simp
  moreover have "NUL \<notin> set s"
    using s by (auto dest: set_takeWhileD)
  ultimately show ?thesis by blast
qed

lemma write_bytes_fits:
  "i + length bs \<le> length buf \<Longrightarrow>
   write_bytes buf i bs = Inr (take i buf @ bs @ drop (i + length bs) buf)"
proof (induction bs arbitrary: buf i)
  case Nil
  then show ?case by simp
next
  case (Cons c cs)
  then have i: "i < length buf" by simp
  have step: "write_bytes (buf[i := c]) (Suc i) cs =
      Inr (take (Suc i) (buf[i := c]) @ cs @ drop (Suc i + length cs) (buf[i := c]))"
    using Cons.prems by (intro Cons.IH) simp
  have t: "take (Suc i) (buf[i := c]) = take i buf @ [c]"
    using i by (simp add: take_Suc_conv_app_nth)
  show ?case
    using i step t by (simp add: poke_def)
qed

lemma write_bytes_overflow:
  "i \<le> length buf \<Longrightarrow> length buf < i + length bs \<Longrightarrow>
   write_bytes buf i bs = Inl (WriteOutOfBounds (length buf))"
proof (induction bs arbitrary: buf i)
  case Nil
  then show ?case by simp
next
  case (Cons c cs)
  show ?case
  proof (cases "i < length buf")
    case True
    have "write_bytes (buf[i := c]) (Suc i) cs = Inl (WriteOutOfBounds (length (buf[i := c])))"
      using Cons.prems True by (intro Cons.IH) simp_all
    then show ?thesis using True by (simp add: poke_def)
  next
    case False
    with Cons.prems have "i = length buf" by simp
    then show ?thesis by (simp add: poke_def)
  qed
qed

lemma strcpy_fits:
  assumes "NUL \<notin> set p" and "length p < length dst"
  shows "strcpy dst (p @ NUL # after) = Inr (p @ NUL # drop (Suc (length p)) dst)"
  using assms by (simp add: strcpy_def c_str_terminated write_bytes_fits)

lemma strcpy_overflow:
  assumes "NUL \<notin> set p" and "length dst \<le> length p"
  shows "strcpy dst (p @ NUL # after) = Inl (WriteOutOfBounds (length dst))"
  using assms by (simp add: strcpy_def c_str_terminated write_bytes_overflow)

lemma last_index_None:
  "c \<notin> set xs \<Longrightarrow> last_index xs c = None"
  by (induction xs) auto

lemma last_index_last:
  "c \<notin> set seg \<Longrightarrow> last_index (d @ c # seg) c = Some (length d)"
  by (induction d) (auto simp: last_index_None)

lemma parent_dir_slash:
  assumes "CHR ''/'' \<notin> set seg" and "NUL \<notin> set d" and "NUL \<notin> set seg"
  shows "parent_dir (d @ CHR ''/'' # seg @ NUL # rest) = Inr (d @ NUL # seg @ NUL # rest)"
proof -
  have "c_str ((d @ CHR ''/'' # seg) @ NUL # rest) = Inr (d @ CHR ''/'' # seg)"
    using assms by (intro c_str_terminated) simp
  moreover have "last_index (d @ CHR ''/'' # (seg @ [NUL])) (CHR ''/'') = Some (length d)"
    using assms(1) by (intro last_index_last) simp
  ultimately show ?thesis
    by (simp add: parent_dir_def strrchr_def poke_def)
qed

lemma parent_dir_no_slash:
  assumes "CHR ''/'' \<notin> set p" and "NUL \<notin> set p"
  shows "parent_dir (p @ NUL # rest) = Inr (p @ NUL # rest)"
proof -
  have "last_index (p @ [NUL]) (CHR ''/'') = None"
    using assms(1) by (intro last_index_None) simp
  then show ?thesis
    using assms(2) by (simp add: parent_dir_def strrchr_def c_str_terminated)
qed


section \<open>Facts about the resolver\<close>

lemma dirname_slash:
  "CHR ''/'' \<notin> set seg \<Longrightarrow> dirname (d @ CHR ''/'' # seg) = d"
  by (simp add: dirname_def last_index_last)

lemma dirname_no_slash:
  "CHR ''/'' \<notin> set p \<Longrightarrow> dirname p = p"
  by (simp add: dirname_def last_index_None)

lemma dirname_prefix:
  "\<exists>seg. p = dirname p @ seg"
proof (cases "CHR ''/'' \<in> set p")
  case True
  then obtain d seg where "p = d @ CHR ''/'' # seg" and "CHR ''/'' \<notin> set seg"
    by (auto dest: split_list_last)
  then show ?thesis by (auto simp: dirname_slash)
next
  case False
  then show ?thesis by (simp add: dirname_no_slash)
qed

lemma parent_dir_dirname:
  assumes "NUL \<notin> set p"
  shows "\<exists>rest'. parent_dir (p @ NUL # rest) = Inr (dirname p @ NUL # rest')
           \<and> length (dirname p @ NUL # rest') = length (p @ NUL # rest)"
proof (cases "CHR ''/'' \<in> set p")
  case True
  then obtain d seg where p: "p = d @ CHR ''/'' # seg" and seg: "CHR ''/'' \<notin> set seg"
    by (auto dest: split_list_last)
  with assms have "parent_dir (d @ CHR ''/'' # seg @ NUL # rest) = Inr (d @ NUL # seg @ NUL # rest)"
    by (intro parent_dir_slash) simp_all
  with p seg show ?thesis by (simp add: dirname_slash)
next
  case False
  with assms show ?thesis by (simp add: dirname_no_slash parent_dir_no_slash)
qed

lemma get_runtime_dir_fits:
  assumes "NUL \<notin> set p" and "length p < length buffer"
  shows "\<exists>rest. get_runtime_dir argc ((p @ NUL # after) # args) buffer buffer_size
             = Inr (dirname p @ NUL # rest)
           \<and> length (dirname p @ NUL # rest) = length buffer"
proof -
  let ?rest = "drop (Suc (length p)) buffer"
  have cp: "strcpy buffer (p @ NUL # after) = Inr (p @ NUL # ?rest)"
    using assms by (rule strcpy_fits)
  obtain rest' where pd: "parent_dir (p @ NUL # ?rest) = Inr (dirname p @ NUL # rest')"
    and len: "length (dirname p @ NUL # rest') = length (p @ NUL # ?rest)"
    using parent_dir_dirname [OF assms(1)] by blast
  have "length (p @ NUL # ?rest) = length buffer"
    using assms(2) by simp
  with cp pd len show ?thesis
    by (simp add: get_runtime_dir_def)
qed

lemma get_runtime_dir_overflow:
  assumes "NUL \<notin> set p" and "length buffer \<le> length p"
  shows "get_runtime_dir argc ((p @ NUL # after) # args) buffer buffer_size
           = Inl (WriteOutOfBounds (length buffer))"
  using strcpy_overflow [OF assms] by (simp add: get_runtime_dir_def)

lemma dirname_no_NUL:
  "NUL \<notin> set p \<Longrightarrow> NUL \<notin> set (dirname p)"
  using dirname_prefix [of p] by (metis Un_iff set_append)

lemma format_runtime_directory:
  "c_str b = Inr s \<Longrightarrow>
   format ''Runtime directory: %s\<newline>'' [b] = Inr (''Runtime directory: '' @ s @ ''\<newline>'')"
  by simp

lemma format_open_file:
  "c_str b = Inr s \<Longrightarrow>
   format ''Open file at path: %s\<newline>'' [b] = Inr (''Open file at path: '' @ s @ ''\<newline>'')"
  by simp

lemma format_failed:
  "c_str b = Inr s \<Longrightarrow>
   format ''Failed to open file: %s\<newline>'' [b] = Inr (''Failed to open file: '' @ s @ ''\<newline>'')"
  by simp

lemma format_example:
  "c_str b = Inr s \<Longrightarrow> format ''%s/example.txt'' [b] = Inr (s @ ''/example.txt'')"
  by simp

lemma format_chunk:
  "c_str b = Inr s \<Longrightarrow> format ''%s'' [b] = Inr s"
  by simp

lemma example_path_no_NUL:
  "NUL \<notin> set dir \<Longrightarrow> NUL \<notin> set (example_path dir)"
  by (auto simp: example_path_def dest: in_set_takeD)

lemma snprintf_example:
  assumes "c_str b = Inr dir" and "length buf = 1024"
  shows "\<exists>rest. snprintf buf 1024 ''%s/example.txt'' [b] = Inr (example_path dir @ NUL # rest)"
proof -
  let ?t = "take 1023 (dir @ ''/example.txt'')"
  have "length (?t @ [NUL]) \<le> length buf"
    using assms(2) by simp
  then have "write_bytes buf 0 (?t @ [NUL]) = Inr (take 0 buf @ (?t @ [NUL]) @ drop (0 + length (?t @ [NUL])) buf)"
    by (intro write_bytes_fits) simp
  then show ?thesis
    using assms(1) by (simp add: snprintf_def format_example example_path_def del: format.simps)
qed

section \<open>Facts about the file printer\<close>

lemma length_local_array:
  "length (local_array junk off n) = n"
  by (simp add: local_array_def)

lemma fgets_scan_length:
  "length (fst (fgets_scan n u)) \<le> n"
  by (induction n u rule: fgets_scan.induct) (auto split: prod.splits)

lemma fgets_scan_append:
  "fst (fgets_scan n u) @ snd (fgets_scan n u) = u"
  by (induction n u rule: fgets_scan.induct) (auto split: prod.splits)

lemma fgets_scan_nonempty:
  "u \<noteq> [] \<Longrightarrow> 0 < n \<Longrightarrow> fst (fgets_scan n u) \<noteq> []"
  by (induction n u rule: fgets_scan.induct) (auto split: prod.splits)

lemma fresh_handle_new:
  "fresh_handle ss \<notin> fst ` set ss"
proof -
  have le: "a \<le> fold max ks a \<and> (\<forall>k\<in>set ks. k \<le> fold max ks a)" for ks and a :: nat
  proof (induction ks arbitrary: a)
    case Nil
    show ?case by simp
  next
    case (Cons k ks)
    from Cons.IH [of "max k a"] show ?case by auto
  qed
  have "\<forall>k\<in>set (map fst ss). k < fresh_handle ss"
    using le [of 0 "map fst ss"] by (auto simp: fresh_handle_def)
  then show ?thesis by auto
qed

lemma set_unread_head:
  "file \<notin> fst ` set ss \<Longrightarrow> set_unread file r ((file, u) # ss) = (file, r) # ss"
proof -
  assume a: "file \<notin> fst ` set ss"
  have "map (\<lambda>(h, u). if h = file then (h, r) else (h, u)) ss = ss"
    using a by (induction ss) auto
  then show ?thesis by (simp add: set_unread_def)
qed

lemma filter_closed:
  "file \<notin> fst ` set ss \<Longrightarrow> filter (\<lambda>(h, _). h \<noteq> file) ((file, u) # ss) = ss"
  by (induction ss) auto

lemma chunks_Nil:
  "chunks [] = []"
  by (simp add: chunks.simps)

lemma chunks_Cons:
  "u \<noteq> [] \<Longrightarrow> fgets_scan 255 u = (chunk, rest) \<Longrightarrow> chunks u = chunk # chunks rest"
  by (subst chunks.simps) simp

lemma read_loop_eof:
  "streams w = (file, []) # ss \<Longrightarrow> read_loop line file w = Inr w"
  by (subst read_loop.simps) (simp add: fgets_def)

lemma read_loop_step:
  assumes st: "streams w = (file, u) # ss" and new: "file \<notin> fst ` set ss"
    and ne: "u \<noteq> []" and len: "length line = 256"
    and sc: "fgets_scan 255 u = (chunk, rest)"
  shows "read_loop line file w =
           read_loop (chunk @ NUL # drop (Suc (length chunk)) line) file
             (w\<lparr>stdout := stdout w @ [takeWhile (\<lambda>c. c \<noteq> NUL) chunk],
                streams := (file, rest) # ss\<rparr>)"
proof -
  let ?line = "chunk @ NUL # drop (Suc (length chunk)) line"
  have "length chunk \<le> 255"
    using fgets_scan_length [of 255 u] sc by simp
  then have "0 + length (chunk @ [NUL]) \<le> length line"
    using len by simp
  then have "write_bytes line 0 (chunk @ [NUL]) =
      Inr (take 0 line @ (chunk @ [NUL]) @ drop (0 + length (chunk @ [NUL])) line)"
    by (rule write_bytes_fits)
  then have wr: "write_bytes line 0 (chunk @ [NUL]) = Inr ?line"
    by simp
  have got: "fgets line 256 file w = Inr (Some ?line, w\<lparr>streams := (file, rest) # ss\<rparr>)"
    using st ne sc wr set_unread_head [OF new] by (simp add: fgets_def)
  have "c_str ?line = Inr (takeWhile (\<lambda>c. c \<noteq> NUL) chunk)"
    by (simp add: c_str_def takeWhile_tail)
  then have pr: "printf ''%s'' [?line] (w\<lparr>streams := (file, rest) # ss\<rparr>) =
      Inr (w\<lparr>stdout := stdout w @ [takeWhile (\<lambda>c. c \<noteq> NUL) chunk], streams := (file, rest) # ss\<rparr>)"
    by (simp add: printf_def fprintf_def format_chunk del: format.simps)
  show ?thesis
    by (subst read_loop.simps) (simp add: got pr)
qed

lemma read_loop_run:
  "streams w = (file, u) # ss \<Longrightarrow> file \<notin> fst ` set ss \<Longrightarrow> length line = 256 \<Longrightarrow>
   read_loop line file w = Inr (w\<lparr>stdout := stdout w @ printed u, streams := (file, []) # ss\<rparr>)"
proof (induction u arbitrary: w line rule: chunks.induct)
  case (1 u)
  show ?case
  proof (cases "u = []")
    case True
    with "1.prems" have "read_loop line file w = Inr w"
      by (simp add: read_loop_eof)
    moreover have "w\<lparr>stdout := stdout w @ printed [], streams := (file, []) # ss\<rparr> = w"
      using "1.prems" True by (simp add: printed_def chunks_Nil)
    ultimately show ?thesis using True by simp
  next
    case False
    obtain chunk rest where sc: "fgets_scan 255 u = (chunk, rest)"
      by (cases "fgets_scan 255 u")
    let ?line = "chunk @ NUL # drop (Suc (length chunk)) line"
    let ?w = "w\<lparr>stdout := stdout w @ [takeWhile (\<lambda>c. c \<noteq> NUL) chunk], streams := (file, rest) # ss\<rparr>"
    have "length chunk \<le> 255"
      using fgets_scan_length [of 255 u] sc by simp
    then have len: "length ?line = 256"
      using "1.prems"(3) by simp
    have step: "read_loop line file w = read_loop ?line file ?w"
      using "1.prems" False sc by (intro read_loop_step)
    have "read_loop ?line file ?w =
        Inr (?w\<lparr>stdout := stdout ?w @ printed rest, streams := (file, []) # ss\<rparr>)"
      using "1.prems"(2) len
      by (intro "1.IH" [OF False sc [symmetric]]) simp_all
    moreover have "printed u = takeWhile (\<lambda>c. c \<noteq> NUL) chunk # printed rest"
      using False sc by (simp add: printed_def chunks_Cons)
    ultimately show ?thesis
      using step by simp
  qed
qed

lemma print_file_content_missing:
  assumes "c_str path = Inr name" and "fs w name = None"
  shows "print_file_content junk path w =
           Inr (w\<lparr>stderr := stderr w @ [''Failed to open file: '' @ name @ ''\<newline>'']\<rparr>)"
  using assms
  by (simp add: print_file_content_def fopen_def fprintf_def format_failed del: format.simps)

lemma print_file_content_found:
  assumes "c_str path = Inr name" and "fs w name = Some content"
  shows "print_file_content junk path w = Inr (w\<lparr>stdout := stdout w @ printed content\<rparr>)"
proof -
  let ?h = "fresh_handle (streams w)"
  let ?w1 = "w\<lparr>streams := (?h, content) # streams w\<rparr>"
  have new: "?h \<notin> fst ` set (streams w)"
    by (rule fresh_handle_new)
  have op: "fopen path w = Inr (Some ?h, ?w1)"
    using assms by (simp add: fopen_def Let_def)
  have "read_loop (local_array junk 2048 256) ?h ?w1 =
      Inr (?w1\<lparr>stdout := stdout ?w1 @ printed content, streams := (?h, []) # streams w\<rparr>)"
    using new by (intro read_loop_run) (simp_all add: length_local_array)
  then have rd: "read_loop (local_array junk 2048 256) ?h ?w1 =
      Inr (w\<lparr>stdout := stdout w @ printed content, streams := (?h, []) # streams w\<rparr>)"
    by simp
  have cl: "fclose ?h (w\<lparr>stdout := stdout w @ printed content, streams := (?h, []) # streams w\<rparr>)
      = Inr (w\<lparr>stdout := stdout w @ printed content\<rparr>)"
    using filter_closed [OF new] by (simp add: fclose_def)
  show ?thesis
    by (simp add: print_file_content_def op rd cl)
qed

lemma fgets_scan_no_newline:
  "newline \<notin> set (take n u) \<Longrightarrow> fgets_scan n u = (take n u, drop n u)"
  by (induction n u rule: fgets_scan.induct) auto

lemma fgets_scan_line:
  "newline \<notin> set l \<Longrightarrow> length l < n \<Longrightarrow> fgets_scan n (l @ newline # rest) = (l @ [newline], rest)"
proof (induction l arbitrary: n)
  case Nil
  then show ?case by (cases n) auto
next
  case (Cons c l)
  then show ?case by (cases n) auto
qed

lemma chunks_line:
  "newline \<notin> set l \<Longrightarrow> length l < 255 \<Longrightarrow> chunks (l @ newline # rest) = (l @ [newline]) # chunks rest"
  by (subst chunks.simps) (simp add: fgets_scan_line)

lemma chunks_long:
  "newline \<notin> set (take 255 u) \<Longrightarrow> u \<noteq> [] \<Longrightarrow> chunks u = take 255 u # chunks (drop 255 u)"
  by (subst chunks.simps) (simp add: fgets_scan_no_newline)

lemma concat_chunks:
  "concat (chunks u) = u"
proof (induction u rule: chunks.induct)
  case (1 u)
  show ?case
  proof (cases "u = []")
    case True
    then show ?thesis by (simp add: chunks_Nil)
  next
    case False
    obtain chunk rest where sc: "fgets_scan 255 u = (chunk, rest)"
      by (cases "fgets_scan 255 u")
    have "concat (chunks rest) = rest"
      using False sc [symmetric] by (rule "1.IH")
    moreover have "chunk @ rest = u"
      using fgets_scan_append [of 255 u] sc by simp
    moreover have "chunks u = chunk # chunks rest"
      using False sc by (rule chunks_Cons)
    ultimately show ?thesis by simp
  qed
qed

lemma chunks_bounded:
  "c \<in> set (chunks u) \<Longrightarrow> c \<noteq> [] \<and> length c \<le> 255"
proof (induction u rule: chunks.induct)
  case (1 u)
  show ?case
  proof (cases "u = []")
    case True
    with "1.prems" show ?thesis by (simp add: chunks_Nil)
  next
    case False
    obtain chunk rest where sc: "fgets_scan 255 u = (chunk, rest)"
      by (cases "fgets_scan 255 u")
    have cs: "chunks u = chunk # chunks rest"
      using False sc by (rule chunks_Cons)
    have "chunk \<noteq> []"
      using fgets_scan_nonempty [OF False, of 255] sc by simp
    moreover have "length chunk \<le> 255"
      using fgets_scan_length [of 255 u] sc by simp
    moreover have "c \<in> set (chunks rest) \<Longrightarrow> c \<noteq> [] \<and> length c \<le> 255"
      using False sc [symmetric] by (rule "1.IH")
    ultimately show ?thesis
      using "1.prems" cs by auto
  qed
qed

lemma chunks_subset:
  "c \<in> set (chunks u) \<Longrightarrow> set c \<subseteq> set u"
proof -
  assume "c \<in> set (chunks u)"
  then have "set c \<subseteq> set (concat (chunks u))" by auto
  then show ?thesis by (simp only: concat_chunks)
qed

lemma printed_no_NUL:
  assumes "NUL \<notin> set u"
  shows "printed u = chunks u"
proof -
  have "takeWhile (\<lambda>c. c \<noteq> NUL) c = c" if "c \<in> set (chunks u)" for c
    using chunks_subset [OF that] assms by (auto simp: takeWhile_eq_all_conv)
  then have "map (takeWhile (\<lambda>c. c \<noteq> NUL)) (chunks u) = map (\<lambda>c. c) (chunks u)"
    by (intro map_cong) simp_all
  then show ?thesis by (simp add: printed_def)
qed

lemma main_prefix:
  assumes p: "NUL \<notin> set p" and len: "length p < 1024"
  shows "\<exists>example_buffer.
           c_str example_buffer = Inr (example_path (dirname p)) \<and>
           main junk argc ((p @ NUL # after) # args) w =
             (case print_file_content junk example_buffer
                (w\<lparr>stdout := stdout w @
                   [''Runtime directory: '' @ dirname p @ ''\<newline>'',
                    ''Open file at path: '' @ example_path (dirname p) @ ''\<newline>'']\<rparr>) of
                Inl e \<Rightarrow> Inl e
              | Inr w3 \<Rightarrow> Inr (0, w3))"
proof -
  have "length p < length (local_array junk 0 1024)"
    using len by (simp add: length_local_array)
  then obtain rest where
    grd: "get_runtime_dir argc ((p @ NUL # after) # args) (local_array junk 0 1024) 1024
            = Inr (dirname p @ NUL # rest)"
    using get_runtime_dir_fits [OF p] by blast
  have nn: "NUL \<notin> set (dirname p)"
    using p by (rule dirname_no_NUL)
  then have cs: "c_str (dirname p @ NUL # rest) = Inr (dirname p)"
    by (rule c_str_terminated)
  have p1: "printf ''Runtime directory: %s\<newline>'' [dirname p @ NUL # rest] w
      = Inr (w\<lparr>stdout := stdout w @ [''Runtime directory: '' @ dirname p @ ''\<newline>'']\<rparr>)"
    by (simp add: printf_def fprintf_def format_runtime_directory [OF cs] del: format.simps)
  have "length (local_array junk 1024 1024) = 1024"
    by (rule length_local_array)
  then obtain rest2 where
    sn: "snprintf (local_array junk 1024 1024) 1024 ''%s/example.txt'' [dirname p @ NUL # rest]
           = Inr (example_path (dirname p) @ NUL # rest2)"
    using snprintf_example [OF cs] by blast
  have cs2: "c_str (example_path (dirname p) @ NUL # rest2) = Inr (example_path (dirname p))"
    using nn by (intro c_str_terminated example_path_no_NUL)
  have p2: "fprintf Stdout ''Open file at path: %s\<newline>'' [example_path (dirname p) @ NUL # rest2]
        (w\<lparr>stdout := stdout w @ [''Runtime directory: '' @ dirname p @ ''\<newline>'']\<rparr>)
      = Inr (w\<lparr>stdout := stdout w @
               [''Runtime directory: '' @ dirname p @ ''\<newline>'',
                ''Open file at path: '' @ example_path (dirname p) @ ''\<newline>'']\<rparr>)"
    by (simp add: fprintf_def format_open_file [OF cs2] del: format.simps)
  have "main junk argc ((p @ NUL # after) # args) w =
      (case print_file_content junk (example_path (dirname p) @ NUL # rest2)
                (w\<lparr>stdout := stdout w @
                   [''Runtime directory: '' @ dirname p @ ''\<newline>'',
                    ''Open file at path: '' @ example_path (dirname p) @ ''\<newline>'']\<rparr>) of
                Inl e \<Rightarrow> Inl e
              | Inr w3 \<Rightarrow> Inr (0, w3))"
    unfolding main_def by (simp only: grd p1 sn p2 sum.case)
  with cs2 show ?thesis by blast
qed

lemma main_missing:
  assumes "NUL \<notin> set p" and "length p < 1024"
    and "fs w (example_path (dirname p)) = None"
  shows "main junk argc ((p @ NUL # after) # args) w =
           Inr (0, w\<lparr>stdout := stdout w @
                      [''Runtime directory: '' @ dirname p @ ''\<newline>'',
                       ''Open file at path: '' @ example_path (dirname p) @ ''\<newline>''],
                    stderr := stderr w @
                      [''Failed to open file: '' @ example_path (dirname p) @ ''\<newline>'']\<rparr>)"
proof -
  obtain eb where cs: "c_str eb = Inr (example_path (dirname p))"
    and m: "main junk argc ((p @ NUL # after) # args) w =
             (case print_file_content junk eb
                (w\<lparr>stdout := stdout w @
                   [''Runtime directory: '' @ dirname p @ ''\<newline>'',
                    ''Open file at path: '' @ example_path (dirname p) @ ''\<newline>'']\<rparr>) of
                Inl e \<Rightarrow> Inl e
              | Inr w3 \<Rightarrow> Inr (0, w3))"
    using main_prefix [OF assms(1,2)] by blast
  show ?thesis
    using assms(3) by (simp add: m print_file_content_missing [OF cs])
qed

lemma main_found:
  assumes "NUL \<notin> set p" and "length p < 1024"
    and "fs w (example_path (dirname p)) = Some content"
  shows "main junk argc ((p @ NUL # after) # args) w =
           Inr (0, w\<lparr>stdout := stdout w @
                      [''Runtime directory: '' @ dirname p @ ''\<newline>'',
                       ''Open file at path: '' @ example_path (dirname p) @ ''\<newline>'']
                      @ printed content\<rparr>)"
proof -
  obtain eb where cs: "c_str eb = Inr (example_path (dirname p))"
    and m: "main junk argc ((p @ NUL # after) # args) w =
             (case print_file_content junk eb
                (w\<lparr>stdout := stdout w @
                   [''Runtime directory: '' @ dirname p @ ''\<newline>'',
                    ''Open file at path: '' @ example_path (dirname p) @ ''\<newline>'']\<rparr>) of
                Inl e \<Rightarrow> Inl e
              | Inr w3 \<Rightarrow> Inr (0, w3))"
    using main_prefix [OF assms(1,2)] by blast
  show ?thesis
    using assms(3) by (simp add: m print_file_content_found [OF cs])
qed

lemma main_overflow:
  assumes "NUL \<notin> set p" and "1024 \<le> length p"
  shows "main junk argc ((p @ NUL # after) # args) w = Inl (WriteOutOfBounds 1024)"
proof -
  have "length (local_array junk 0 1024) \<le> length p"
    using assms(2) by (simp add: length_local_array)
  from get_runtime_dir_overflow [OF assms(1) this]
  show ?thesis by (simp add: main_def length_local_array)
qed

lemma chunks_lines:
  "(\<And>l. l \<in> set ls \<Longrightarrow> newline \<notin> set l \<and> length l < 255) \<Longrightarrow>
   chunks (concat (map (\<lambda>l. l @ [newline]) ls)) = map (\<lambda>l. l @ [newline]) ls"
  by (induction ls) (simp_all add: chunks_Nil chunks_line)

lemma main_run:
  assumes "NUL \<notin> set p" and "length p < 1024"
  shows "main junk argc ((p @ NUL # after) # args) w =
           Inr (0, w\<lparr>stdout := stdout w @
                      [''Runtime directory: '' @ dirname p @ ''\<newline>'',
                       ''Open file at path: '' @ example_path (dirname p) @ ''\<newline>'']
                      @ (case fs w (example_path (dirname p)) of
                           None \<Rightarrow> [] | Some content \<Rightarrow> printed content),
                    stderr := stderr w @
                      (case fs w (example_path (dirname p)) of
                         None \<Rightarrow> [''Failed to open file: '' @ example_path (dirname p) @ ''\<newline>'']
                       | Some content \<Rightarrow> [])\<rparr>)"
proof (cases "fs w (example_path (dirname p))")
  case None
  then show ?thesis
    using main_missing [OF assms None, of junk argc after args] by simp
next
  case (Some content)
  then show ?thesis
    using main_found [OF assms Some, of junk argc after args] by simp
qed

lemma main_resolved:
  assumes g: "get_runtime_dir argc argv (local_array junk 0 1024) 1024 = Inr path_buffer"
    and cs: "c_str path_buffer = Inr d"
  shows "main junk argc argv w =
           Inr (0, w\<lparr>stdout := stdout w @
                      [''Runtime directory: '' @ d @ ''\<newline>'',
                       ''Open file at path: '' @ example_path d @ ''\<newline>'']
                      @ (case fs w (example_path d) of
                           None \<Rightarrow> [] | Some content \<Rightarrow> printed content),
                    stderr := stderr w @
                      (case fs w (example_path d) of
                         None \<Rightarrow> [''Failed to open file: '' @ example_path d @ ''\<newline>'']
                       | Some content \<Rightarrow> [])\<rparr>)"
proof -
  let ?l1 = "''Runtime directory: '' @ d @ ''\<newline>''"
  let ?l2 = "''Open file at path: '' @ example_path d @ ''\<newline>''"
  have nn: "NUL \<notin> set d"
    using c_str_split [OF cs] by auto
  have p1: "printf ''Runtime directory: %s\<newline>'' [path_buffer] w
      = Inr (w\<lparr>stdout := stdout w @ [?l1]\<rparr>)"
    by (simp add: printf_def fprintf_def format_runtime_directory [OF cs] del: format.simps)
  have "length (local_array junk 1024 1024) = 1024"
    by (rule length_local_array)
  then obtain rest where
    sn: "snprintf (local_array junk 1024 1024) 1024 ''%s/example.txt'' [path_buffer]
           = Inr (example_path d @ NUL # rest)"
    using snprintf_example [OF cs] by blast
  have cs2: "c_str (example_path d @ NUL # rest) = Inr (example_path d)"
    using nn by (intro c_str_terminated example_path_no_NUL)
  have p2: "fprintf Stdout ''Open file at path: %s\<newline>'' [example_path d @ NUL # rest]
        (w\<lparr>stdout := stdout w @ [?l1]\<rparr>)
      = Inr (w\<lparr>stdout := stdout w @ [?l1, ?l2]\<rparr>)"
    by (simp add: fprintf_def format_open_file [OF cs2] del: format.simps)
  have m: "main junk argc argv w =
      (case print_file_content junk (example_path d @ NUL # rest)
              (w\<lparr>stdout := stdout w @ [?l1, ?l2]\<rparr>) of
         Inl e \<Rightarrow> Inl e
       | Inr w3 \<Rightarrow> Inr (0, w3))"
    unfolding main_def by (simp only: g p1 sn p2 sum.case)
  show ?thesis
  proof (cases "fs w (example_path d)")
    case None
    then show ?thesis
      by (simp add: m print_file_content_missing [OF cs2])
  next
    case (Some content)
    then show ?thesis
      by (simp add: m print_file_content_found [OF cs2])
  qed
qed


section \<open>The claims of the specification\<close>


text \<open>
  Claim C1. An invocation path with a separator is \<open>d @ ''/'' @ seg\<close> where \<open>seg\<close>, the final
  segment, has no separator. On an array that holds this path as a C string,
  \<open>parent_dir\<close> overwrites the last separator with NUL and changes no other byte, so the
  string in the array is \<open>d\<close>: the path cut at its last separator, the separator
  excluded. The resolver as a whole, \<open>get_runtime_dir\<close>, leaves \<open>d\<close> in the caller's
  array whenever the path and its terminator fit there; the capacity of the array is
  kept. From \<open>/usr/local/bin/app\<close> it produces \<open>/usr/local/bin\<close>.
\<close>

theorem parent_dir_removes_last_segment:
  assumes "CHR ''/'' \<notin> set seg" and "NUL \<notin> set d" and "NUL \<notin> set seg"
  shows "parent_dir (d @ CHR ''/'' # seg @ NUL # rest) = Inr (d @ NUL # seg @ NUL # rest)
       \<and> c_str (d @ NUL # seg @ NUL # rest) = Inr d
       \<and> (length (d @ CHR ''/'' # seg) < length buffer \<longrightarrow>
            (\<exists>rest'. get_runtime_dir argc ((d @ CHR ''/'' # seg @ NUL # after) # args) buffer buffer_size
                        = Inr (d @ NUL # rest')
                    \<and> c_str (d @ NUL # rest') = Inr d
                    \<and> length (d @ NUL # rest') = length buffer))"
proof (intro conjI impI)
  show "parent_dir (d @ CHR ''/'' # seg @ NUL # rest) = Inr (d @ NUL # seg @ NUL # rest)"
    using assms by (rule parent_dir_slash)
  show "c_str (d @ NUL # seg @ NUL # rest) = Inr d"
    using assms(2) by (rule c_str_terminated)
next
  assume len: "length (d @ CHR ''/'' # seg) < length buffer"
  have nn: "NUL \<notin> set (d @ CHR ''/'' # seg)"
    using assms by simp
  obtain rest' where
    "get_runtime_dir argc (((d @ CHR ''/'' # seg) @ NUL # after) # args) buffer buffer_size
       = Inr (dirname (d @ CHR ''/'' # seg) @ NUL # rest')"
    and "length (dirname (d @ CHR ''/'' # seg) @ NUL # rest') = length buffer"
    using get_runtime_dir_fits [OF nn len] by blast
  moreover have "dirname (d @ CHR ''/'' # seg) = d"
    using assms(1) by (rule dirname_slash)
  moreover have "c_str (d @ NUL # rest') = Inr d"
    using assms(2) by (rule c_str_terminated)
  ultimately show "\<exists>rest'. get_runtime_dir argc ((d @ CHR ''/'' # seg @ NUL # after) # args) buffer buffer_size
                        = Inr (d @ NUL # rest')
                    \<and> c_str (d @ NUL # rest') = Inr d
                    \<and> length (d @ NUL # rest') = length buffer"
    by auto
qed

theorem parent_dir_removes_last_segment_witness:
  "parent_dir (''/usr/local/bin/app'' @ [NUL]) = Inr (''/usr/local/bin'' @ NUL # ''app'' @ [NUL])
   \<and> c_str (''/usr/local/bin'' @ NUL # ''app'' @ [NUL]) = Inr ''/usr/local/bin''
   \<and> (\<exists>rest'. get_runtime_dir 1 [''/usr/local/bin/app'' @ [NUL]] (local_array char_of 0 1024) 1024
                 = Inr (''/usr/local/bin'' @ NUL # rest')
             \<and> c_str (''/usr/local/bin'' @ NUL # rest') = Inr ''/usr/local/bin''
             \<and> length (''/usr/local/bin'' @ NUL # rest') = length (local_array char_of 0 1024 :: buffer))"
  using parent_dir_removes_last_segment
    [of "''app''" "''/usr/local/bin''" "[]" "local_array char_of 0 1024" 1 "[]" "[]" 1024]
  by (simp add: length_local_array)


text \<open>
  Claim C4. On an array that holds a path without separator, \<open>parent_dir\<close> returns the
  array as it was, byte for byte, and signals nothing: \<open>strrchr\<close> gives the null
  pointer and the store is skipped. \<open>get_runtime_dir\<close> then leaves the whole path in the
  caller's array as the directory, as for \<open>app\<close>.
\<close>

theorem parent_dir_without_separator:
  assumes "CHR ''/'' \<notin> set p" and "NUL \<notin> set p"
  shows "parent_dir (p @ NUL # rest) = Inr (p @ NUL # rest)
       \<and> (length p < length buffer \<longrightarrow>
            (\<exists>rest'. get_runtime_dir argc ((p @ NUL # after) # args) buffer buffer_size
                        = Inr (p @ NUL # rest')
                    \<and> c_str (p @ NUL # rest') = Inr p
                    \<and> length (p @ NUL # rest') = length buffer))"
proof (intro conjI impI)
  show "parent_dir (p @ NUL # rest) = Inr (p @ NUL # rest)"
    using assms by (rule parent_dir_no_slash)
next
  assume len: "length p < length buffer"
  obtain rest' where
    "get_runtime_dir argc ((p @ NUL # after) # args) buffer buffer_size
       = Inr (dirname p @ NUL # rest')"
    and "length (dirname p @ NUL # rest') = length buffer"
    using get_runtime_dir_fits [OF assms(2) len] by blast
  moreover have "dirname p = p"
    using assms(1) by (rule dirname_no_slash)
  moreover have "c_str (p @ NUL # rest') = Inr p"
    using assms(2) by (rule c_str_terminated)
  ultimately show "\<exists>rest'. get_runtime_dir argc ((p @ NUL # after) # args) buffer buffer_size
                        = Inr (p @ NUL # rest')
                    \<and> c_str (p @ NUL # rest') = Inr p
                    \<and> length (p @ NUL # rest') = length buffer"
    by auto
qed

theorem parent_dir_without_separator_witness:
  "parent_dir (''app'' @ [NUL]) = Inr (''app'' @ [NUL])
   \<and> (\<exists>rest'. get_runtime_dir 1 [''app'' @ [NUL]] (local_array char_of 0 1024) 1024
                 = Inr (''app'' @ NUL # rest')
             \<and> c_str (''app'' @ NUL # rest') = Inr ''app''
             \<and> length (''app'' @ NUL # rest') = length (local_array char_of 0 1024 :: buffer))"
  using parent_dir_without_separator [of "''app''" "[]" "local_array char_of 0 1024" 1 "[]" "[]" 1024]
  by (simp add: length_local_array)


text \<open>
  Claim C7. \<open>get_runtime_dir\<close> never looks at \<open>buffer_size\<close>, and \<open>strcpy\<close> stores the
  path and its terminator whatever the capacity of the destination: as soon as the
  path is at least as long as the array, a store lands at the offset just past its
  last byte. In \<open>main\<close> the array has 1024 bytes, so every invocation path of 1024 bytes
  or more, one of 1025 bytes for instance, ends the run with a write out of bounds.
\<close>

theorem strcpy_writes_past_buffer:
  assumes "NUL \<notin> set p" and "length buffer \<le> length p"
  shows "strcpy buffer (p @ NUL # after) = Inl (WriteOutOfBounds (length buffer))
       \<and> get_runtime_dir argc ((p @ NUL # after) # args) buffer buffer_size
           = Inl (WriteOutOfBounds (length buffer))
       \<and> (length buffer = 1024 \<longrightarrow>
            main junk argc ((p @ NUL # after) # args) w = Inl (WriteOutOfBounds 1024))"
  using strcpy_overflow [OF assms] get_runtime_dir_overflow [OF assms]
    main_overflow [OF assms(1)] assms(2)
  by simp

theorem strcpy_writes_past_buffer_witness:
  "strcpy (local_array char_of 0 1024) (replicate 1025 (CHR ''a'') @ [NUL])
     = Inl (WriteOutOfBounds 1024)
   \<and> get_runtime_dir 1 [replicate 1025 (CHR ''a'') @ [NUL]] (local_array char_of 0 1024) 1024
       = Inl (WriteOutOfBounds 1024)
   \<and> main char_of 1 [replicate 1025 (CHR ''a'') @ [NUL]]
        \<lparr>fs = Map.empty, stdout = [], stderr = [], streams = []\<rparr>
       = Inl (WriteOutOfBounds 1024)"
  using strcpy_writes_past_buffer
    [of "replicate 1025 (CHR ''a'')" "local_array char_of 0 1024" "[]" 1 "[]" 1024 char_of
        "\<lparr>fs = Map.empty, stdout = [], stderr = [], streams = []\<rparr>"]
  by (simp add: length_local_array)


text \<open>
  Claim C3. When the target file cannot be opened, \<open>print_file_content\<close> makes one write,
  to standard error: the text \<open>Failed to open file: \<close>, the path and a newline. Nothing
  else changes: no write to standard output, no stream opened, the file system as it
  was. For a whole run this leaves on standard output the two label lines only; with
  directory \<open>/tmp\<close> the diagnostic is \<open>Failed to open file: /tmp/example.txt\<close>.
\<close>

theorem open_failure_diagnostic:
  "(c_str path = Inr name \<and> fs w name = None \<longrightarrow>
      print_file_content junk path w =
        Inr (w\<lparr>stderr := stderr w @ [''Failed to open file: '' @ name @ ''\<newline>'']\<rparr>))
   \<and> (NUL \<notin> set p \<and> length p < 1024 \<and> fs w (example_path (dirname p)) = None \<longrightarrow>
      main junk argc ((p @ NUL # after) # args) w =
        Inr (0, w\<lparr>stdout := stdout w @
                     [''Runtime directory: '' @ dirname p @ ''\<newline>'',
                      ''Open file at path: '' @ example_path (dirname p) @ ''\<newline>''],
                   stderr := stderr w @
                     [''Failed to open file: '' @ example_path (dirname p) @ ''\<newline>'']\<rparr>))"
  using print_file_content_missing [of path name w junk] main_missing [of p w junk argc after args]
  by blast

theorem open_failure_diagnostic_witness:
  "print_file_content char_of (''/tmp/example.txt'' @ [NUL])
       \<lparr>fs = Map.empty, stdout = [], stderr = [], streams = []\<rparr> =
     Inr \<lparr>fs = Map.empty, stdout = [],
          stderr = [''Failed to open file: /tmp/example.txt\<newline>''], streams = []\<rparr>
   \<and> main char_of 1 [''/tmp/app'' @ [NUL]]
       \<lparr>fs = Map.empty, stdout = [], stderr = [], streams = []\<rparr> =
     Inr (0, \<lparr>fs = Map.empty,
              stdout = [''Runtime directory: /tmp\<newline>'',
                        ''Open file at path: /tmp/example.txt\<newline>''],
              stderr = [''Failed to open file: /tmp/example.txt\<newline>''], streams = []\<rparr>)"
  using open_failure_diagnostic
    [of "''/tmp/example.txt'' @ [NUL]" "''/tmp/example.txt''"
        "\<lparr>fs = Map.empty, stdout = [], stderr = [], streams = []\<rparr>" char_of
        "''/tmp/app''" 1 "[]" "[]"]
  by (simp add: c_str_def dirname_def example_path_def)


text \<open>
  Claim C5 says that the target path is the directory, one \<open>/\<close> and \<open>example.txt\<close> for every
  resolved directory. \<open>snprintf\<close> is given the capacity of \<open>example_buffer\<close> and keeps
  1023 bytes at most: started as 1012 times \<open>a\<close> followed by \<open>/app\<close>, the program resolves
  the directory of 1012 bytes and opens a path that ends in \<open>/example.tx\<close>.
\<close>

theorem target_path_truncated_counterexample:
  "main char_of 1 [replicate 1012 (CHR ''a'') @ ''/app'' @ [NUL]]
       \<lparr>fs = Map.empty, stdout = [], stderr = [], streams = []\<rparr> =
     Inr (0, \<lparr>fs = Map.empty,
              stdout = [''Runtime directory: '' @ replicate 1012 (CHR ''a'') @ ''\<newline>'',
                        ''Open file at path: '' @ replicate 1012 (CHR ''a'') @ ''/example.tx\<newline>''],
              stderr = [''Failed to open file: '' @ replicate 1012 (CHR ''a'') @ ''/example.tx\<newline>''],
              streams = []\<rparr>)
   \<and> replicate 1012 (CHR ''a'') @ ''/example.tx'' \<noteq> replicate 1012 (CHR ''a'') @ ''/example.txt''"
proof -
  let ?d = "replicate 1012 (CHR ''a'')"
  let ?w = "\<lparr>fs = Map.empty, stdout = [], stderr = [], streams = []\<rparr>"
  have d: "dirname (?d @ CHR ''/'' # ''app'') = ?d"
    by (rule dirname_slash) simp
  have e: "example_path ?d = ?d @ ''/example.tx''"
    by (simp add: example_path_def)
  have "NUL \<notin> set (?d @ CHR ''/'' # ''app'')" and "length (?d @ CHR ''/'' # ''app'') < 1024"
    by simp_all
  then have "main char_of 1 [(?d @ CHR ''/'' # ''app'') @ NUL # []] ?w =
      Inr (0, ?w\<lparr>stdout := stdout ?w @
                     [''Runtime directory: '' @ dirname (?d @ CHR ''/'' # ''app'') @ ''\<newline>'',
                      ''Open file at path: '' @ example_path (dirname (?d @ CHR ''/'' # ''app'')) @ ''\<newline>''],
                   stderr := stderr ?w @
                     [''Failed to open file: '' @ example_path (dirname (?d @ CHR ''/'' # ''app'')) @ ''\<newline>'']\<rparr>)"
    by (rule main_missing) simp
  then show ?thesis
    by (simp add: d e)
qed


text \<open>
  Claim C5, amended. Let \<open>d\<close> be the directory the resolver leaves in \<open>path_buffer\<close>.
  The path that \<open>main\<close> prints on its second line, opens, and names in the diagnostic
  is the first 1023 bytes of \<open>d\<close> followed by \<open>/example.txt\<close>; for every directory of at
  most 1011 bytes that is \<open>d\<close>, a single \<open>/\<close> and \<open>example.txt\<close>, whole. Directory \<open>/tmp\<close>
  gives \<open>/tmp/example.txt\<close>.
\<close>

theorem target_path_construction:
  assumes "get_runtime_dir argc argv (local_array junk 0 1024) 1024 = Inr path_buffer"
    and "c_str path_buffer = Inr d"
  shows "main junk argc argv w =
           Inr (0, w\<lparr>stdout := stdout w @
                      [''Runtime directory: '' @ d @ ''\<newline>'',
                       ''Open file at path: '' @ take 1023 (d @ ''/example.txt'') @ ''\<newline>'']
                      @ (case fs w (take 1023 (d @ ''/example.txt'')) of
                           None \<Rightarrow> [] | Some content \<Rightarrow> printed content),
                    stderr := stderr w @
                      (case fs w (take 1023 (d @ ''/example.txt'')) of
                         None \<Rightarrow> [''Failed to open file: '' @ take 1023 (d @ ''/example.txt'')
                                    @ ''\<newline>'']
                       | Some content \<Rightarrow> [])\<rparr>)
       \<and> (length d \<le> 1011 \<longrightarrow> take 1023 (d @ ''/example.txt'') = d @ ''/example.txt'')"
proof (rule conjI)
  show "main junk argc argv w =
           Inr (0, w\<lparr>stdout := stdout w @
                      [''Runtime directory: '' @ d @ ''\<newline>'',
                       ''Open file at path: '' @ take 1023 (d @ ''/example.txt'') @ ''\<newline>'']
                      @ (case fs w (take 1023 (d @ ''/example.txt'')) of
                           None \<Rightarrow> [] | Some content \<Rightarrow> printed content),
                    stderr := stderr w @
                      (case fs w (take 1023 (d @ ''/example.txt'')) of
                         None \<Rightarrow> [''Failed to open file: '' @ take 1023 (d @ ''/example.txt'')
                                    @ ''\<newline>'']
                       | Some content \<Rightarrow> [])\<rparr>)"
    using main_resolved [OF assms, of w] unfolding example_path_def .
  show "length d \<le> 1011 \<longrightarrow> take 1023 (d @ ''/example.txt'') = d @ ''/example.txt''"
    by simp
qed

theorem target_path_construction_witness:
  "main char_of 1 [''/tmp/app'' @ [NUL]]
       \<lparr>fs = Map.empty, stdout = [], stderr = [], streams = []\<rparr> =
     Inr (0, \<lparr>fs = Map.empty,
              stdout = [''Runtime directory: /tmp\<newline>'',
                        ''Open file at path: /tmp/example.txt\<newline>''],
              stderr = [''Failed to open file: /tmp/example.txt\<newline>''], streams = []\<rparr>)"
proof -
  have d: "dirname ''/tmp/app'' = ''/tmp''"
    using dirname_slash [of "''app''" "''/tmp''"] by simp
  obtain rest where g: "get_runtime_dir 1 [''/tmp/app'' @ NUL # []] (local_array char_of 0 1024) 1024
      = Inr (''/tmp'' @ NUL # rest)"
    using get_runtime_dir_fits [of "''/tmp/app''" "local_array char_of 0 1024" 1 "[]" "[]" 1024]
    by (auto simp: d length_local_array)
  have cs: "c_str (''/tmp'' @ NUL # rest) = Inr ''/tmp''"
    by (rule c_str_terminated) simp
  from target_path_construction
    [OF g cs, of "\<lparr>fs = Map.empty, stdout = [], stderr = [], streams = []\<rparr>"]
  show ?thesis by simp
qed


text \<open>
  Claim C6 says that the process exits with success status for every input. Started
  with an invocation path of 2000 bytes, the program overruns \<open>path_buffer\<close> in the copy
  and the run ends there, with no exit status.
\<close>

theorem overflow_no_exit_status_counterexample:
  "main char_of 1 [replicate 2000 (CHR ''a'') @ [NUL]]
       \<lparr>fs = Map.empty, stdout = [], stderr = [], streams = []\<rparr>
     = Inl (WriteOutOfBounds 1024)"
  by (rule main_overflow) simp_all

text \<open>
  Claim C6, amended. \<open>main\<close> returns, with status 0, for every invocation path shorter
  than 1024 bytes, whether the target file can be opened or not. And whatever the
  input, a run of \<open>main\<close> that returns returns 0: no path of the program yields another
  exit status.
\<close>

theorem main_exit_status:
  "(main junk argc argv w = Inr (rc, w') \<longrightarrow> rc = 0)
   \<and> (NUL \<notin> set p \<and> length p < 1024 \<longrightarrow>
        (\<exists>w''. main junk argc ((p @ NUL # after) # args) w = Inr (0, w'')))"
proof (intro conjI impI)
  assume "main junk argc argv w = Inr (rc, w')"
  then show "rc = 0"
    by (auto simp: main_def split: sum.splits)
next
  assume a: "NUL \<notin> set p \<and> length p < 1024"
  show "\<exists>w''. main junk argc ((p @ NUL # after) # args) w = Inr (0, w'')"
  proof (cases "fs w (example_path (dirname p))")
    case None
    with a show ?thesis using main_missing [of p w junk argc after args] by blast
  next
    case (Some content)
    with a show ?thesis using main_found [of p w content junk argc after args] by blast
  qed
qed

theorem main_exit_status_witness:
  "\<exists>w''. main char_of 1 [''/tmp/app'' @ [NUL]]
           \<lparr>fs = Map.empty, stdout = [], stderr = [], streams = []\<rparr> = Inr (0, w'')"
  using main_exit_status
    [of char_of 1 "[]" "\<lparr>fs = Map.empty, stdout = [], stderr = [], streams = []\<rparr>" 0
        "\<lparr>fs = Map.empty, stdout = [], stderr = [], streams = []\<rparr>" "''/tmp/app''" "[]" "[]"]
  by simp


text \<open>
  Claim C8. When \<open>fopen\<close> succeeds, the stream it returns is open after the call, and
  \<open>print_file_content\<close> returns with that stream closed. Every return of
  \<open>print_file_content\<close> leaves the table of open streams as it found it, and the only
  fault it can end with is the one \<open>fopen\<close> itself ends with, before any stream exists:
  no path leaks a stream.
\<close>

theorem file_handle_released:
  "(print_file_content junk path w = Inr w' \<longrightarrow> streams w' = streams w)
   \<and> (print_file_content junk path w = Inl e \<longrightarrow> fopen path w = Inl e)
   \<and> (fopen path w = Inr (Some file, w1) \<longrightarrow>
        file \<in> fst ` set (streams w1) \<and> file \<notin> fst ` set (streams w)
        \<and> (\<exists>w''. print_file_content junk path w = Inr w'' \<and> file \<notin> fst ` set (streams w'')))"
proof (cases "c_str path")
  case (Inl x)
  then show ?thesis
    by (simp add: print_file_content_def fopen_def)
next
  case (Inr name)
  show ?thesis
  proof (cases "fs w name")
    case None
    have "fopen path w = Inr (None, w)"
      using Inr None by (simp add: fopen_def)
    then show ?thesis
      using print_file_content_missing [OF Inr None, of junk] by auto
  next
    case (Some content)
    have "fopen path w =
        Inr (Some (fresh_handle (streams w)),
             w\<lparr>streams := (fresh_handle (streams w), content) # streams w\<rparr>)"
      using Inr Some by (simp add: fopen_def Let_def)
    then show ?thesis
      using print_file_content_found [OF Inr Some, of junk] fresh_handle_new [of "streams w"]
      by auto
  qed
qed

theorem file_handle_released_witness:
  "fopen (''f'' @ [NUL]) \<lparr>fs = [''f'' \<mapsto> ''hello\<newline>''], stdout = [], stderr = [], streams = []\<rparr>
     = Inr (Some 1, \<lparr>fs = [''f'' \<mapsto> ''hello\<newline>''], stdout = [], stderr = [],
                     streams = [(1, ''hello\<newline>'')]\<rparr>)
   \<and> (\<exists>w''. print_file_content char_of (''f'' @ [NUL])
               \<lparr>fs = [''f'' \<mapsto> ''hello\<newline>''], stdout = [], stderr = [], streams = []\<rparr> = Inr w''
            \<and> 1 \<notin> fst ` set (streams w''))"
proof -
  let ?w = "\<lparr>fs = [''f'' \<mapsto> ''hello\<newline>''], stdout = [], stderr = [], streams = []\<rparr>"
  let ?w1 = "\<lparr>fs = [''f'' \<mapsto> ''hello\<newline>''], stdout = [], stderr = [],
               streams = [(1, ''hello\<newline>'')]\<rparr>"
  have op: "fopen (''f'' @ [NUL]) ?w = Inr (Some 1, ?w1)"
    by (simp add: fopen_def c_str_def fresh_handle_def)
  from file_handle_released [of char_of "''f'' @ [NUL]" ?w ?w "ReadOutOfBounds 0" 1 ?w1] op
  show ?thesis by simp
qed


text \<open>
  Claim C2 says that the output after the two label lines is the content of the file
  for every file whose lines fit a chunk. A file of the one line \<open>a\<close>, NUL, \<open>b\<close>, newline
  fits, and the program prints \<open>a\<close> only: \<open>printf("%s", line)\<close> stops at the first NUL of
  the chunk.
\<close>

theorem nul_byte_cuts_output_counterexample:
  "main char_of 1 [''/tmp/app'' @ [NUL]]
       \<lparr>fs = [''/tmp/example.txt'' \<mapsto> [CHR ''a'', NUL, CHR ''b'', newline]],
        stdout = [], stderr = [], streams = []\<rparr> =
     Inr (0, \<lparr>fs = [''/tmp/example.txt'' \<mapsto> [CHR ''a'', NUL, CHR ''b'', newline]],
              stdout = [''Runtime directory: /tmp\<newline>'',
                        ''Open file at path: /tmp/example.txt\<newline>'',
                        ''a''],
              stderr = [], streams = []\<rparr>)
   \<and> ''a'' \<noteq> [CHR ''a'', NUL, CHR ''b'', newline]"
proof -
  let ?c = "[CHR ''a'', NUL, CHR ''b'', newline]"
  let ?w = "\<lparr>fs = [''/tmp/example.txt'' \<mapsto> ?c], stdout = [], stderr = [], streams = []\<rparr>"
  have d: "dirname ''/tmp/app'' = ''/tmp''"
    using dirname_slash [of "''app''" "''/tmp''"] by simp
  have e: "example_path ''/tmp'' = ''/tmp/example.txt''"
    by (simp add: example_path_def)
  have "chunks ([CHR ''a'', NUL, CHR ''b''] @ newline # []) = ([CHR ''a'', NUL, CHR ''b''] @ [newline]) # chunks []"
    by (rule chunks_line) simp_all
  then have pr: "printed ?c = [''a'']"
    by (simp add: printed_def chunks_Nil)
  have "main char_of 1 [''/tmp/app'' @ NUL # []] ?w =
      Inr (0, ?w\<lparr>stdout := stdout ?w @
                      [''Runtime directory: '' @ dirname ''/tmp/app'' @ ''\<newline>'',
                       ''Open file at path: '' @ example_path (dirname ''/tmp/app'') @ ''\<newline>'']
                      @ printed ?c\<rparr>)"
    by (rule main_found) (simp_all add: d e)
  then show ?thesis
    by (simp add: d e pr)
qed


text \<open>
  Claim C2, amended. When the file holds no NUL byte, \<open>print_file_content\<close> writes to
  standard output the chunks of the file, one write per chunk, in order, for every
  path whose file can be opened. A run of \<open>main\<close> with an invocation path shorter than
  1024 bytes writes the two label lines and then these chunks, when the file at the
  path it opens exists and holds no NUL byte; that path is the directory followed by
  \<open>/example.txt\<close> whenever the directory has at most 1011 bytes. Every chunk has
  between 1 and 255 bytes, and the chunks put together are the content of the file.
  When every line is shorter than 255 bytes and ends with a newline, the chunks are
  the lines. For the content \<open>hello\<close>, newline, \<open>world\<close>, newline the output after the
  labels is exactly that.
\<close>

theorem main_prints_file:
  assumes "NUL \<notin> set content"
  shows "(c_str path = Inr name \<and> fs w name = Some content \<longrightarrow>
            print_file_content junk path w = Inr (w\<lparr>stdout := stdout w @ chunks content\<rparr>))
       \<and> (NUL \<notin> set p \<and> length p < 1024 \<and> fs w (example_path (dirname p)) = Some content \<longrightarrow>
            main junk argc ((p @ NUL # after) # args) w =
              Inr (0, w\<lparr>stdout := stdout w @
                         [''Runtime directory: '' @ dirname p @ ''\<newline>'',
                          ''Open file at path: '' @ example_path (dirname p) @ ''\<newline>'']
                         @ chunks content\<rparr>))
       \<and> (length (dirname p) \<le> 1011 \<longrightarrow>
            example_path (dirname p) = dirname p @ ''/example.txt'')
       \<and> concat (chunks content) = content
       \<and> (\<forall>c\<in>set (chunks content). c \<noteq> [] \<and> length c \<le> 255)
       \<and> ((\<forall>l\<in>set ls. newline \<notin> set l \<and> length l < 255) \<and>
            content = concat (map (\<lambda>l. l @ [newline]) ls) \<longrightarrow>
            chunks content = map (\<lambda>l. l @ [newline]) ls)"
proof (intro conjI impI)
  assume "c_str path = Inr name \<and> fs w name = Some content"
  then show "print_file_content junk path w = Inr (w\<lparr>stdout := stdout w @ chunks content\<rparr>)"
    using print_file_content_found [of path name w content junk] printed_no_NUL [OF assms]
    by simp
next
  assume "NUL \<notin> set p \<and> length p < 1024 \<and> fs w (example_path (dirname p)) = Some content"
  then show "main junk argc ((p @ NUL # after) # args) w =
              Inr (0, w\<lparr>stdout := stdout w @
                         [''Runtime directory: '' @ dirname p @ ''\<newline>'',
                          ''Open file at path: '' @ example_path (dirname p) @ ''\<newline>'']
                         @ chunks content\<rparr>)"
    using main_found [of p w content junk argc after args] printed_no_NUL [OF assms]
    by simp
next
  assume "length (dirname p) \<le> 1011"
  then show "example_path (dirname p) = dirname p @ ''/example.txt''"
    by (simp add: example_path_def)
next
  show "concat (chunks content) = content"
    by (rule concat_chunks)
  show "\<forall>c\<in>set (chunks content). c \<noteq> [] \<and> length c \<le> 255"
    using chunks_bounded by blast
next
  assume "(\<forall>l\<in>set ls. newline \<notin> set l \<and> length l < 255) \<and>
            content = concat (map (\<lambda>l. l @ [newline]) ls)"
  then show "chunks content = map (\<lambda>l. l @ [newline]) ls"
    using chunks_lines [of ls] by simp
qed

theorem main_prints_file_witness:
  "print_file_content char_of (''/tmp/example.txt'' @ [NUL])
       \<lparr>fs = [''/tmp/example.txt'' \<mapsto> ''hello\<newline>world\<newline>''],
        stdout = [], stderr = [], streams = []\<rparr> =
     Inr \<lparr>fs = [''/tmp/example.txt'' \<mapsto> ''hello\<newline>world\<newline>''],
          stdout = [''hello\<newline>'', ''world\<newline>''], stderr = [], streams = []\<rparr>
   \<and> main char_of 1 [''/tmp/app'' @ [NUL]]
       \<lparr>fs = [''/tmp/example.txt'' \<mapsto> ''hello\<newline>world\<newline>''],
        stdout = [], stderr = [], streams = []\<rparr> =
     Inr (0, \<lparr>fs = [''/tmp/example.txt'' \<mapsto> ''hello\<newline>world\<newline>''],
              stdout = [''Runtime directory: /tmp\<newline>'',
                        ''Open file at path: /tmp/example.txt\<newline>'',
                        ''hello\<newline>'', ''world\<newline>''],
              stderr = [], streams = []\<rparr>)
   \<and> concat [''hello\<newline>'', ''world\<newline>''] = ''hello\<newline>world\<newline>''"
proof -
  let ?c = "''hello\<newline>world\<newline>''"
  let ?w = "\<lparr>fs = [''/tmp/example.txt'' \<mapsto> ?c], stdout = [], stderr = [], streams = []\<rparr>"
  have d: "dirname ''/tmp/app'' = ''/tmp''"
    using dirname_slash [of "''app''" "''/tmp''"] by simp
  have e: "example_path ''/tmp'' = ''/tmp/example.txt''"
    by (simp add: example_path_def)
  have "chunks (concat (map (\<lambda>l. l @ [newline]) [''hello'', ''world'']))
      = map (\<lambda>l. l @ [newline]) [''hello'', ''world'']"
    by (rule chunks_lines) auto
  then have ch: "chunks ?c = [''hello\<newline>'', ''world\<newline>'']"
    by simp
  from main_prints_file [where content = ?c and path = "''/tmp/example.txt'' @ [NUL]"
      and name = "''/tmp/example.txt''" and p = "''/tmp/app''" and w = ?w
      and ls = "[''hello'', ''world'']" and junk = char_of and argc = 1 and after = "[]" and args = "[]"]
  show ?thesis
    by (simp add: d e ch c_str_def)
qed


text \<open>
  Claim C9. Two runs with the same invocation path and the same content of the target
  file end alike, whatever the indeterminate contents of their arrays, \<open>argc\<close>, the
  other arguments, the other files, the earlier output and the open streams. When
  the path is shorter than 1024 bytes both return 0 and add the same texts to standard
  output and to standard error; a run changes the world only by these additions, the
  file system and the open streams are as before, so a second run, started in the
  world the first one left, adds the same texts once more. When the path has 1024
  bytes or more both runs end at the same write out of bounds.
\<close>

theorem program_deterministic:
  assumes "NUL \<notin> set p"
    and "fs w' (example_path (dirname p)) = fs w (example_path (dirname p))"
  shows "(length p < 1024 \<and>
          (\<exists>out err.
             main junk argc ((p @ NUL # after) # args) w =
               Inr (0, w\<lparr>stdout := stdout w @ out, stderr := stderr w @ err\<rparr>)
           \<and> main junk' argc' ((p @ NUL # after') # args') w' =
               Inr (0, w'\<lparr>stdout := stdout w' @ out, stderr := stderr w' @ err\<rparr>)
           \<and> main junk' argc' ((p @ NUL # after') # args')
                 (w\<lparr>stdout := stdout w @ out, stderr := stderr w @ err\<rparr>) =
               Inr (0, w\<lparr>stdout := stdout w @ out @ out, stderr := stderr w @ err @ err\<rparr>)))
       \<or> (1024 \<le> length p
           \<and> main junk argc ((p @ NUL # after) # args) w = Inl (WriteOutOfBounds 1024)
           \<and> main junk' argc' ((p @ NUL # after') # args') w' = Inl (WriteOutOfBounds 1024))"
proof (cases "length p < 1024")
  case True
  let ?t = "example_path (dirname p)"
  let ?out = "[''Runtime directory: '' @ dirname p @ ''\<newline>'',
               ''Open file at path: '' @ ?t @ ''\<newline>'']
              @ (case fs w ?t of None \<Rightarrow> [] | Some content \<Rightarrow> printed content)"
  let ?err = "case fs w ?t of
                None \<Rightarrow> [''Failed to open file: '' @ ?t @ ''\<newline>'']
              | Some content \<Rightarrow> []"
  let ?x = "w\<lparr>stdout := stdout w @ ?out, stderr := stderr w @ ?err\<rparr>"
  have r1: "main junk argc ((p @ NUL # after) # args) w = Inr (0, ?x)"
    using main_run [OF assms(1) True, of junk argc after args w] by simp
  have r2: "main junk' argc' ((p @ NUL # after') # args') w' =
      Inr (0, w'\<lparr>stdout := stdout w' @ ?out, stderr := stderr w' @ ?err\<rparr>)"
    using main_run [OF assms(1) True, of junk' argc' after' args' w'] assms(2) by simp
  have "fs ?x ?t = fs w ?t"
    by simp
  then have r3: "main junk' argc' ((p @ NUL # after') # args') ?x =
      Inr (0, w\<lparr>stdout := stdout w @ ?out @ ?out, stderr := stderr w @ ?err @ ?err\<rparr>)"
    using main_run [OF assms(1) True, of junk' argc' after' args' ?x] by simp
  from True r1 r2 r3 show ?thesis
    by blast
next
  case False
  then have "1024 \<le> length p" by simp
  then show ?thesis
    using main_overflow [OF assms(1)] by blast
qed

theorem program_deterministic_witness:
  "\<exists>out err.
     main char_of 1 [''/tmp/app'' @ [NUL]]
         \<lparr>fs = [''/tmp/example.txt'' \<mapsto> ''hello\<newline>''], stdout = [], stderr = [], streams = []\<rparr> =
       Inr (0, \<lparr>fs = [''/tmp/example.txt'' \<mapsto> ''hello\<newline>''], stdout = out, stderr = err,
                streams = []\<rparr>)
   \<and> main (char_of \<circ> Suc) 2 [''/tmp/app'' @ [NUL], ''-v'' @ [NUL]]
         \<lparr>fs = [''/tmp/example.txt'' \<mapsto> ''hello\<newline>''], stdout = [''earlier''], stderr = [],
          streams = [(7, ''unread'')]\<rparr> =
       Inr (0, \<lparr>fs = [''/tmp/example.txt'' \<mapsto> ''hello\<newline>''], stdout = ''earlier'' # out,
                stderr = err, streams = [(7, ''unread'')]\<rparr>)"
  using program_deterministic
    [where p = "''/tmp/app''"
       and w' = "\<lparr>fs = [''/tmp/example.txt'' \<mapsto> ''hello\<newline>''], stdout = [''earlier''],
                  stderr = [], streams = [(7, ''unread'')]\<rparr>"
       and w = "\<lparr>fs = [''/tmp/example.txt'' \<mapsto> ''hello\<newline>''], stdout = [], stderr = [],
                 streams = []\<rparr>"
       and junk = char_of and argc = 1 and after = "[]" and args = "[]"
       and junk' = "char_of \<circ> Suc" and argc' = 2 and after' = "[]" and args' = "[''-v'' @ [NUL]]"]
  by auto


text \<open>
  Claim C10. For a file without NUL byte, lines of any length, \<open>print_file_content\<close>
  writes the chunks of the file to standard output, and together they are the content
  of the file. A line of more than 255 bytes comes out as its first 255 bytes, then the
  chunks of what remains of it, up to its newline: a line of 300 bytes as 255 bytes and
  then 45 bytes with the newline.
\<close>

theorem long_line_printed_in_chunks:
  assumes "c_str path = Inr name" and "fs w name = Some content" and "NUL \<notin> set content"
  shows "print_file_content junk path w = Inr (w\<lparr>stdout := stdout w @ chunks content\<rparr>)
       \<and> concat (chunks content) = content
       \<and> (\<forall>c\<in>set (chunks content). c \<noteq> [] \<and> length c \<le> 255)
       \<and> (content = l @ newline # rest \<and> newline \<notin> set l \<and> 255 < length l \<longrightarrow>
            chunks content = take 255 l # chunks (drop 255 l @ newline # rest))"
proof (intro conjI impI ballI)
  show "print_file_content junk path w = Inr (w\<lparr>stdout := stdout w @ chunks content\<rparr>)"
    using print_file_content_found [OF assms(1,2), of junk] printed_no_NUL [OF assms(3)] by simp
  show "concat (chunks content) = content"
    by (rule concat_chunks)
next
  fix c assume "c \<in> set (chunks content)"
  then show "c \<noteq> []" and "length c \<le> 255"
    using chunks_bounded by blast+
next
  assume a: "content = l @ newline # rest \<and> newline \<notin> set l \<and> 255 < length l"
  then have "newline \<notin> set (take 255 content)"
    by (auto dest: in_set_takeD)
  moreover from a have "content \<noteq> []" by auto
  ultimately have "chunks content = take 255 content # chunks (drop 255 content)"
    by (rule chunks_long)
  with a show "chunks content = take 255 l # chunks (drop 255 l @ newline # rest)"
    by simp
qed

theorem long_line_printed_in_chunks_witness:
  "print_file_content char_of (''f'' @ [NUL])
       \<lparr>fs = [''f'' \<mapsto> replicate 300 (CHR ''x'') @ [newline]],
        stdout = [], stderr = [], streams = []\<rparr> =
     Inr \<lparr>fs = [''f'' \<mapsto> replicate 300 (CHR ''x'') @ [newline]],
          stdout = [replicate 255 (CHR ''x''), replicate 45 (CHR ''x'') @ [newline]],
          stderr = [], streams = []\<rparr>
   \<and> replicate 255 (CHR ''x'') @ replicate 45 (CHR ''x'') @ [newline]
       = replicate 300 (CHR ''x'') @ [newline]"
proof -
  let ?c = "replicate 300 (CHR ''x'') @ [newline]"
  let ?w = "\<lparr>fs = [''f'' \<mapsto> ?c], stdout = [], stderr = [], streams = []\<rparr>"
  have "chunks (replicate 45 (CHR ''x'') @ newline # []) = (replicate 45 (CHR ''x'') @ [newline]) # chunks []"
    by (rule chunks_line) simp_all
  then have tl: "chunks (replicate 45 (CHR ''x'') @ [newline]) = [replicate 45 (CHR ''x'') @ [newline]]"
    by (simp add: chunks_Nil)
  from long_line_printed_in_chunks
    [where path = "''f'' @ [NUL]" and name = "''f''" and w = ?w and content = ?c
      and l = "replicate 300 (CHR ''x'')" and rest = "[]" and junk = char_of]
  have "print_file_content char_of (''f'' @ [NUL]) ?w = Inr (?w\<lparr>stdout := stdout ?w @ chunks ?c\<rparr>)"
    and "chunks ?c = replicate 255 (CHR ''x'') # chunks (replicate 45 (CHR ''x'') @ [newline])"
    by (simp_all add: c_str_def)
  then show ?thesis
    by (simp add: tl replicate_add [symmetric])
qed

end
